theory Spec2Isabelle
  imports Main
begin

section \<open>The fretboard module (src/modules/fretboard.js)\<close>

text \<open>
  A shallow embedding of \<^verbatim>\<open>getFrets\<close>, \<^verbatim>\<open>filterCapo\<close>, \<^verbatim>\<open>shouldDisplayFret\<close>,
  \<^verbatim>\<open>isInPosition\<close> and \<^verbatim>\<open>getInterval\<close>. JavaScript numbers are modelled as
  \<open>int\<close> (all numbers that occur are small integers), a value that may be
  \<^verbatim>\<open>undefined\<close> as an \<open>option\<close>, and a \<^verbatim>\<open>TypeError\<close> raised by reading a property
  of \<^verbatim>\<open>undefined\<close> as the left summand of a sum type.
\<close>

subsection \<open>Data\<close>

type_synonym noteName = string

text \<open>One \<^verbatim>\<open>{ index, interval }\<close> object pushed on a fret's \<^verbatim>\<open>sequences\<close> array.\<close>

record tag =
  index :: nat
  interval :: int

record fret =
  string :: nat
  number :: int
  "note" :: "noteName option"
  sequences :: "tag list"
  isHighlighted :: bool

text \<open>
  A sequence descriptor. \<^verbatim>\<open>customFretBounds\<close> and \<^verbatim>\<open>highlightedInterval\<close> may be
  absent on the JavaScript object.
\<close>

record seq =
  tonality :: noteName
  model :: string
  position :: int
  customFretBounds :: "(int \<times> int) option"
  isIntersected :: bool
  highlightedInterval :: "int option"

text \<open>An entry of the \<^verbatim>\<open>models\<close> registry; only its optional \<^verbatim>\<open>positions\<close> table is read here.\<close>

record modelEntry =
  positions :: "(int \<times> int) list option"

text \<open>
  The module imports \<^verbatim>\<open>notes\<close>, \<^verbatim>\<open>models\<close>, \<^verbatim>\<open>NB_FRETS\<close>, \<^verbatim>\<open>MAX_NB_FRETS\<close>,
  \<^verbatim>\<open>intervalsForSequence\<close> and \<^verbatim>\<open>shiftSequencesDown\<close> from other modules. They are
  parameters of the embedding, collected in one record.
\<close>

record env =
  "notes" :: "noteName list"
  models :: "string \<Rightarrow> modelEntry option"
  NB_FRETS :: nat
  MAX_NB_FRETS :: nat
  intervalsForSequence :: "seq \<Rightarrow> int list"
  shiftSequencesDown :: "fret list \<Rightarrow> fret list"

text \<open>
  Every failure of the module is a \<^verbatim>\<open>TypeError\<close> from reading a property of
  \<^verbatim>\<open>undefined\<close>; the constructor records which read failed:
  \<^verbatim>\<open>frets[i].sequences\<close>, \<^verbatim>\<open>seq.customFretBounds[0]\<close>,
  \<^verbatim>\<open>'positions' in models[seq.model]\<close>, or \<^verbatim>\<open>position[0]\<close>.
\<close>

datatype error = UndefinedFret | UndefinedBounds | UndefinedModel | UndefinedPosition

subsection \<open>JavaScript primitives\<close>

text \<open>\<^verbatim>\<open>xs[i]\<close>: \<^verbatim>\<open>undefined\<close> outside the array.\<close>

definition jsGet :: "'a list \<Rightarrow> int \<Rightarrow> 'a option" where
  "jsGet xs i = (if 0 \<le> i \<and> i < int (length xs) then Some (xs ! nat i) else None)"

text \<open>
  \<^verbatim>\<open>a % b\<close>: the sign follows the dividend. For \<open>b = 0\<close> JavaScript gives
  \<^verbatim>\<open>NaN\<close>; here the result is then \<open>a\<close>, and both index nothing in the
  empty array that \<open>b = 0\<close> stands for.
\<close>

definition jsRem :: "int \<Rightarrow> int \<Rightarrow> int" where
  "jsRem a b = (if a < 0 then - ((- a) mod \<bar>b\<bar>) else a mod \<bar>b\<bar>)"

text \<open>\<^verbatim>\<open>xs.findIndex(p)\<close> and \<^verbatim>\<open>xs.indexOf(x)\<close>: the first index, or -1.\<close>

fun findIndex :: "('a \<Rightarrow> bool) \<Rightarrow> 'a list \<Rightarrow> int" where
  "findIndex p [] = -1"
| "findIndex p (x # xs) =
     (if p x then 0 else (let i = findIndex p xs in if i < 0 then -1 else i + 1))"

definition indexOf :: "'a list \<Rightarrow> 'a \<Rightarrow> int" where
  "indexOf xs x = findIndex (\<lambda>y. y = x) xs"

text \<open>\<^verbatim>\<open>xs.slice(0, e)\<close>: a negative end counts from the end of the array.\<close>

definition jsSlice0 :: "'a list \<Rightarrow> int \<Rightarrow> 'a list" where
  "jsSlice0 xs e = (if e < 0 then take (nat (int (length xs) + e)) xs else take (nat e) xs)"

text \<open>
  \<^verbatim>\<open>xs.sort(cmp)\<close> on a copy: the sort is stable; an insertion sort that keeps
  equal elements in their order.
\<close>

fun insertBy :: "('a \<Rightarrow> 'a \<Rightarrow> int) \<Rightarrow> 'a \<Rightarrow> 'a list \<Rightarrow> 'a list" where
  "insertBy cmp x [] = [x]"
| "insertBy cmp x (y # ys) = (if cmp x y \<le> 0 then x # y # ys else y # insertBy cmp x ys)"

definition sortBy :: "('a \<Rightarrow> 'a \<Rightarrow> int) \<Rightarrow> 'a list \<Rightarrow> 'a list" where
  "sortBy cmp xs = foldr (insertBy cmp) xs []"

text \<open>\<^verbatim>\<open>xs.forEach(f)\<close> where \<open>f\<close> updates a state and may throw.\<close>

fun forEachE :: "('s \<Rightarrow> 'a \<Rightarrow> error + 's) \<Rightarrow> 'a list \<Rightarrow> 's \<Rightarrow> error + 's" where
  "forEachE f [] s = Inr s"
| "forEachE f (x # xs) s = (case f s x of Inl e \<Rightarrow> Inl e | Inr s' \<Rightarrow> forEachE f xs s')"

text \<open>\<^verbatim>\<open>xs.flatMap(f)\<close> where \<open>f\<close> may throw.\<close>

fun flatMapE :: "('a \<Rightarrow> error + 'b list) \<Rightarrow> 'a list \<Rightarrow> error + 'b list" where
  "flatMapE f [] = Inr []"
| "flatMapE f (x # xs) =
     (case f x of Inl e \<Rightarrow> Inl e
      | Inr ys \<Rightarrow> (case flatMapE f xs of Inl e \<Rightarrow> Inl e | Inr zs \<Rightarrow> Inr (ys @ zs)))"

subsection \<open>getInterval\<close>

text \<open>\<^verbatim>\<open>notes.indexOf(n)\<close> for a note that may be \<^verbatim>\<open>undefined\<close>.\<close>

definition noteIndex :: "env \<Rightarrow> noteName option \<Rightarrow> int" where
  "noteIndex env n = (case n of None \<Rightarrow> -1 | Some x \<Rightarrow> indexOf (notes env) x)"

definition getInterval :: "env \<Rightarrow> noteName option \<Rightarrow> noteName option \<Rightarrow> int" where
  "getInterval env note1 note2 =
     (let index1 = noteIndex env note1;
          index2 = noteIndex env note2
      in if index1 \<le> index2 then index2 - index1
         else int (length (notes env)) - (index1 - index2))"

subsection \<open>shouldDisplayFret and isInPosition\<close>

definition isInPosition :: "int \<Rightarrow> int \<times> int \<Rightarrow> int \<Rightarrow> bool" where
  "isInPosition fretNumber pos offset =
     (let start = fst pos + offset;
          stop = snd pos + offset
      in if start < stop then start \<le> fretNumber \<and> fretNumber \<le> stop
         else start \<le> fretNumber \<or> fretNumber \<le> stop)"

text \<open>
  When \<^verbatim>\<open>positionOffsets[index]\<close> is \<^verbatim>\<open>undefined\<close>, \<^verbatim>\<open>start\<close> and \<^verbatim>\<open>stop\<close> are
  \<^verbatim>\<open>NaN\<close> and every comparison of \<^verbatim>\<open>isInPosition\<close> is false.
\<close>

definition shouldDisplayFret :: "env \<Rightarrow> int \<Rightarrow> nat \<Rightarrow> seq \<Rightarrow> int list \<Rightarrow> error + bool" where
  "shouldDisplayFret env fret idx seq positionOffsets =
     (if position seq = -1 then
        (case customFretBounds seq of
           None \<Rightarrow> Inl UndefinedBounds
         | Some b \<Rightarrow> Inr (fst b \<le> fret \<and> fret \<le> snd b))
      else if position seq = 0 then Inr True
      else
        (case models env (model seq) of
           None \<Rightarrow> Inl UndefinedModel
         | Some m \<Rightarrow>
            (case positions m of
               None \<Rightarrow> Inr True
             | Some ps \<Rightarrow>
                (case jsGet ps (position seq - 1) of
                   None \<Rightarrow> Inl UndefinedPosition
                 | Some pos \<Rightarrow>
                    (case jsGet positionOffsets (int idx) of
                       None \<Rightarrow> Inr False
                     | Some offset \<Rightarrow> Inr (isInPosition fret pos offset))))))"

subsection \<open>filterCapo\<close>

definition filterCapo :: "fret list \<Rightarrow> int \<Rightarrow> fret list" where
  "filterCapo frets capo =
     map (\<lambda>fret. fret\<lparr>sequences := (if number fret < capo then [] else sequences fret)\<rparr>) frets"

subsection \<open>getFrets\<close>

text \<open>The comparison function given to \<^verbatim>\<open>sort\<close>.\<close>

definition compareSeq :: "seq \<Rightarrow> seq \<Rightarrow> int" where
  "compareSeq a b =
     (if isIntersected a \<and> \<not> isIntersected b then 1
      else if isIntersected b \<and> \<not> isIntersected a then -1
      else 0)"

text \<open>The fresh frets of one string.\<close>

definition newFrets :: "env \<Rightarrow> noteName \<Rightarrow> nat \<Rightarrow> fret list" where
  "newFrets env openStringNote stringNumber =
     map (\<lambda>fretNumber.
            \<lparr>string = stringNumber,
             number = int fretNumber,
             note = jsGet (notes env)
                      (jsRem (indexOf (notes env) openStringNote + int fretNumber)
                             (int (length (notes env)))),
             sequences = [],
             isHighlighted = False\<rparr>)
         [0 ..< NB_FRETS env]"

text \<open>
  The body of the inner \<^verbatim>\<open>forEach\<close> over the target fret and its octave
  duplicate: skip the fret when it is not displayed, else push the tag and set the
  highlight.
\<close>

definition markFret ::
  "env \<Rightarrow> int list \<Rightarrow> seq \<Rightarrow> nat \<Rightarrow> int \<Rightarrow> fret list \<Rightarrow> int \<Rightarrow> error + fret list" where
  "markFret env positionOffsets seq idx intv frets fret =
     (case shouldDisplayFret env fret idx seq positionOffsets of
        Inl e \<Rightarrow> Inl e
      | Inr display \<Rightarrow>
          if \<not> display then Inr frets
          else
            (case jsGet frets fret of
               None \<Rightarrow> Inl UndefinedFret
             | Some f \<Rightarrow>
                 Inr (frets[nat fret :=
                        f\<lparr>sequences := sequences f @ [\<lparr>index = idx, interval = intv\<rparr>],
                          isHighlighted :=
                            (if Some intv = highlightedInterval seq then True
                             else isHighlighted f)\<rparr>])))"

definition applyInterval ::
  "env \<Rightarrow> int list \<Rightarrow> seq \<Rightarrow> nat \<Rightarrow> int \<Rightarrow> fret list \<Rightarrow> int \<Rightarrow> error + fret list" where
  "applyInterval env positionOffsets seq idx rootFret frets intv =
     (let fretNumber = rootFret + intv;
          markBoth =
            forEachE (markFret env positionOffsets seq idx intv)
              [fretNumber, jsRem (fretNumber + 12) (int (NB_FRETS env))] frets
      in if isIntersected seq then
           (case jsGet frets fretNumber of
              None \<Rightarrow> Inl UndefinedFret
            | Some f \<Rightarrow> if sequences f = [] then Inr frets else markBoth)
         else markBoth)"

text \<open>The body of \<^verbatim>\<open>sortedSequences.forEach(function(seq, index) ...)\<close>.\<close>

definition markSequence ::
  "env \<Rightarrow> int list \<Rightarrow> fret list \<Rightarrow> nat \<times> seq \<Rightarrow> error + fret list" where
  "markSequence env positionOffsets frets is =
     (let idx = fst is;
          seq = snd is;
          rootFret = findIndex (\<lambda>fret. note fret = Some (tonality seq)) frets
      in forEachE (applyInterval env positionOffsets seq idx rootFret)
           (0 # intervalsForSequence env seq) frets)"

definition markString :: "env \<Rightarrow> int list \<Rightarrow> seq list \<Rightarrow> fret list \<Rightarrow> error + fret list" where
  "markString env positionOffsets sortedSequences frets =
     forEachE (markSequence env positionOffsets) (enumerate 0 sortedSequences) frets"

text \<open>
  \<^verbatim>\<open>frets.concat(frets.slice(0, MAX_NB_FRETS - NB_FRETS).map(...))\<close>.
\<close>

definition extendFrets :: "env \<Rightarrow> fret list \<Rightarrow> fret list" where
  "extendFrets env frets =
     frets @ map (\<lambda>fret. fret\<lparr>number := number fret + int (NB_FRETS env)\<rparr>)
               (jsSlice0 frets (int (MAX_NB_FRETS env) - int (NB_FRETS env)))"

text \<open>The callback of \<^verbatim>\<open>tuningNotes.flatMap\<close>.\<close>

definition buildString ::
  "env \<Rightarrow> int list \<Rightarrow> seq list \<Rightarrow> nat \<times> noteName \<Rightarrow> error + fret list" where
  "buildString env positionOffsets sortedSequences sn =
     (case markString env positionOffsets sortedSequences (newFrets env (snd sn) (fst sn)) of
        Inl e \<Rightarrow> Inl e
      | Inr frets \<Rightarrow> Inr (extendFrets env frets))"

definition lowestTuningNote :: "noteName list \<Rightarrow> bool \<Rightarrow> noteName option" where
  "lowestTuningNote tuningNotes flipped =
     (if flipped then jsGet tuningNotes (int (length tuningNotes) - 1)
      else jsGet tuningNotes 0)"

definition positionOffsets :: "env \<Rightarrow> seq list \<Rightarrow> noteName list \<Rightarrow> bool \<Rightarrow> int list" where
  "positionOffsets env seqs tuningNotes flipped =
     map (\<lambda>seq. getInterval env (lowestTuningNote tuningNotes flipped) (Some (tonality seq)))
       seqs"

text \<open>The grid after \<^verbatim>\<open>flatMap\<close>, before \<^verbatim>\<open>shiftSequencesDown\<close> and \<^verbatim>\<open>filterCapo\<close>.\<close>

definition markedGrid :: "env \<Rightarrow> seq list \<Rightarrow> noteName list \<Rightarrow> bool \<Rightarrow> error + fret list" where
  "markedGrid env seqs tuningNotes flipped =
     flatMapE (buildString env (positionOffsets env seqs tuningNotes flipped)
                 (sortBy compareSeq seqs))
       (enumerate 0 tuningNotes)"

definition getFrets :: "env \<Rightarrow> seq list \<Rightarrow> noteName list \<Rightarrow> int \<Rightarrow> bool \<Rightarrow> error + fret list" where
  "getFrets env seqs tuningNotes capo flipped =
     (case markedGrid env seqs tuningNotes flipped of
        Inl e \<Rightarrow> Inl e
      | Inr allFrets \<Rightarrow> Inr (filterCapo (shiftSequencesDown env allFrets) capo))"

subsection \<open>An instance of the imported constants\<close>

text \<open>
  Modelled from the spec: the values of \<^verbatim>\<open>notes\<close> and \<^verbatim>\<open>models\<close> (module
  \<^verbatim>\<open>music\<close>), \<^verbatim>\<open>NB_FRETS\<close> and \<^verbatim>\<open>MAX_NB_FRETS\<close> (module \<^verbatim>\<open>constants\<close>),
  \<^verbatim>\<open>intervalsForSequence\<close> and \<^verbatim>\<open>shiftSequencesDown\<close> are not in the source at
  hand. The spec fixes a 12-note chromatic cycle, a fret count larger than the
  octave, major-scale steps as an example of generated intervals, and optional
  position tables. This instance supplies such values for the closed theorems:
  two octaves of frets, extended by a third, the major scale and a major triad,
  and the identity for the row shift. The general theorems hold for every \<open>env\<close>
  that meets their hypotheses.
\<close>

definition chromatic :: "noteName list" where
  "chromatic =
     [''C'', ''C#'', ''D'', ''D#'', ''E'', ''F'', ''F#'', ''G'', ''G#'', ''A'', ''A#'', ''B'']"

definition exampleEnv :: env where
  "exampleEnv =
     \<lparr>notes = chromatic,
      models = map_of
        [(''major'', \<lparr>positions = Some [(0, 4), (2, 5), (4, 8), (7, 10), (9, 12)]\<rparr>),
         (''triad'', \<lparr>positions = None\<rparr>)],
      NB_FRETS = 24,
      MAX_NB_FRETS = 36,
      intervalsForSequence =
        (\<lambda>seq. if model seq = ''major'' then [2, 4, 5, 7, 9, 11] else [4, 7]),
      shiftSequencesDown = (\<lambda>frets. frets)\<rparr>"

subsection \<open>The interval contract as the specification words it\<close>

text \<open>
  The specification's contract for the interval computation: the result is
  \<open>(index(note2) - index(note1)) mod 12\<close>, and the computation fails with an
  \<^verbatim>\<open>InvalidNote\<close> error if either note is not in the set. This definition follows
  those words, not the source; it is compared with \<open>getInterval\<close> below.
\<close>

datatype specError = InvalidNoteError | InvalidSequenceConfigError

definition getInterval_spec :: "env \<Rightarrow> noteName \<Rightarrow> noteName \<Rightarrow> specError + int" where
  "getInterval_spec env note1 note2 =
     (if note1 \<in> set (notes env) \<and> note2 \<in> set (notes env)
      then Inr ((indexOf (notes env) note2 - indexOf (notes env) note1) mod 12)
      else Inl InvalidNoteError)"

subsection \<open>Sample inputs\<close>

text \<open>Sequence descriptors used in the closed theorems.\<close>

definition majorSeq :: "noteName \<Rightarrow> bool \<Rightarrow> seq" where
  "majorSeq root intersected =
     \<lparr>tonality = root, model = ''major'', position = 0, customFretBounds = None,
      isIntersected = intersected, highlightedInterval = Some 0\<rparr>"

subsection \<open>What marking leaves alone\<close>

text \<open>The fields of a fret that marking and the capo filter never write.\<close>

definition cell :: "fret \<Rightarrow> nat \<times> int \<times> noteName option" where
  "cell f = (string f, number f, note f)"

subsection \<open>Root fret and target frets of a sequence on a string\<close>

text \<open>
  \<^verbatim>\<open>frets.findIndex(fret => fret.note == seq.tonality)\<close> on the frets of a string
  with the given open note (the notes of the frets do not depend on the string
  number, and marking does not change them).
\<close>

definition rootFretOn :: "env \<Rightarrow> noteName \<Rightarrow> seq \<Rightarrow> int" where
  "rootFretOn env openStringNote seq =
     findIndex (\<lambda>fret. note fret = Some (tonality seq)) (newFrets env openStringNote 0)"

text \<open>
  Every target fret \<^verbatim>\<open>rootFret + interval\<close> of the sequence, for the root interval 0
  and the generated intervals, is a fret of the string.
\<close>

definition targetsInRange :: "env \<Rightarrow> noteName \<Rightarrow> seq \<Rightarrow> bool" where
  "targetsInRange env openStringNote seq \<longleftrightarrow>
     (\<forall>i \<in> set (0 # intervalsForSequence env seq).
        0 \<le> rootFretOn env openStringNote seq + i
        \<and> rootFretOn env openStringNote seq + i < int (NB_FRETS env))"


section \<open>Properties\<close>

subsection \<open>Index lookups\<close>

lemma findIndex_ge: "- 1 \<le> findIndex p xs"
  by (induction xs) (auto simp: Let_def)

lemma findIndex_lt: "findIndex p xs < int (length xs)"
  by (induction xs) (auto simp: Let_def)

lemma findIndex_neg_iff: "findIndex p xs < 0 \<longleftrightarrow> (\<forall>x \<in> set xs. \<not> p x)"
  using findIndex_ge [of p] by (induction xs) (auto simp: Let_def)

lemma findIndex_nth: "0 \<le> findIndex p xs \<Longrightarrow> p (xs ! nat (findIndex p xs))"
proof (induction xs)
  case Nil
  then show ?case by simp
next
  case (Cons x xs)
  show ?case
  proof (cases "p x")
    case True
    then show ?thesis by simp
  next
    case False
    with Cons.prems have nn: "0 \<le> findIndex p xs"
      by (auto simp: Let_def split: if_splits)
    with False have "findIndex p (x # xs) = findIndex p xs + 1"
      by (simp add: Let_def)
    moreover have "nat (findIndex p xs + 1) = Suc (nat (findIndex p xs))"
      using nn by simp
    ultimately show ?thesis using Cons.IH [OF nn] by simp
  qed
qed

lemma findIndex_first: "0 \<le> j \<Longrightarrow> j < findIndex p xs \<Longrightarrow> \<not> p (xs ! nat j)"
proof (induction xs arbitrary: j)
  case Nil
  then show ?case by simp
next
  case (Cons x xs)
  show ?case
  proof (cases "p x")
    case True
    with Cons.prems show ?thesis by simp
  next
    case False
    show ?thesis
    proof (cases "j = 0")
      case True
      with False show ?thesis by simp
    next
      case jpos: False
      from Cons.prems False have "j - 1 < findIndex p xs"
        by (auto simp: Let_def split: if_splits)
      moreover have "0 \<le> j - 1" using jpos Cons.prems by simp
      ultimately have "\<not> p (xs ! nat (j - 1))" by (rule Cons.IH [rotated])
      moreover have "nat j = Suc (nat (j - 1))" using jpos Cons.prems by simp
      ultimately show ?thesis by simp
    qed
  qed
qed

lemma indexOf_range: "- 1 \<le> indexOf xs x \<and> indexOf xs x < int (length xs)"
  by (simp add: indexOf_def findIndex_ge findIndex_lt)

lemma indexOf_mem: "x \<in> set xs \<Longrightarrow> 0 \<le> indexOf xs x"
  using findIndex_neg_iff [of "\<lambda>y. y = x" xs] by (auto simp: indexOf_def)

lemma indexOf_not_mem: "x \<notin> set xs \<Longrightarrow> indexOf xs x = - 1"
  using findIndex_neg_iff [of "\<lambda>y. y = x" xs] findIndex_ge [of "\<lambda>y. y = x" xs]
  by (auto simp: indexOf_def)

lemma indexOf_nth: "x \<in> set xs \<Longrightarrow> xs ! nat (indexOf xs x) = x"
  using findIndex_nth [of "\<lambda>y. y = x" xs] indexOf_mem [of x xs] by (simp add: indexOf_def)

subsection \<open>getInterval on the note table\<close>

text \<open>
  Claim C6. For notes \<open>a\<close> and \<open>b\<close> of the 12-note table, \<^verbatim>\<open>getInterval(a, b)\<close> is
  \<open>(index b - index a) mod 12\<close> and lies between 0 and 11; \<^verbatim>\<open>getInterval(a, a)\<close> is 0,
  and \<^verbatim>\<open>getInterval(a, b) + getInterval(b, a)\<close> is a multiple of 12.
\<close>

theorem getInterval_chromatic:
  assumes len: "length (notes env) = 12"
    and a: "a \<in> set (notes env)" and b: "b \<in> set (notes env)"
  shows "getInterval env (Some a) (Some b)
           = (indexOf (notes env) b - indexOf (notes env) a) mod 12
       \<and> 0 \<le> getInterval env (Some a) (Some b)
       \<and> getInterval env (Some a) (Some b) \<le> 11
       \<and> getInterval env (Some a) (Some a) = 0
       \<and> (getInterval env (Some a) (Some b) + getInterval env (Some b) (Some a)) mod 12 = 0"
proof -
  define i where "i = indexOf (notes env) a"
  define j where "j = indexOf (notes env) b"
  have ri: "0 \<le> i" "i < 12"
    using indexOf_mem [OF a] indexOf_range [of "notes env" a] len by (simp_all add: i_def)
  have rj: "0 \<le> j" "j < 12"
    using indexOf_mem [OF b] indexOf_range [of "notes env" b] len by (simp_all add: j_def)
  have ab: "getInterval env (Some a) (Some b) = (if i \<le> j then j - i else 12 - (i - j))"
    by (simp add: getInterval_def noteIndex_def Let_def len i_def j_def)
  have ba: "getInterval env (Some b) (Some a) = (if j \<le> i then i - j else 12 - (j - i))"
    by (simp add: getInterval_def noteIndex_def Let_def len i_def j_def)
  have aa: "getInterval env (Some a) (Some a) = 0"
    by (simp add: getInterval_def noteIndex_def Let_def)
  have m: "(if i \<le> j then j - i else 12 - (i - j)) = (j - i) mod 12"
  proof (cases "i \<le> j")
    case True
    then show ?thesis using ri rj by simp
  next
    case False
    have "(j - i) mod 12 = (j - i + 12) mod 12" by simp
    also have "\<dots> = j - i + 12"
      using False ri rj by (intro mod_pos_pos_trivial) linarith+
    also have "\<dots> = 12 - (i - j)" by simp
    finally have "(j - i) mod 12 = 12 - (i - j)" .
    with False show ?thesis by (simp only: if_False)
  qed
  have s: "((if i \<le> j then j - i else 12 - (i - j)) + (if j \<le> i then i - j else 12 - (j - i))) mod 12 = 0"
    using ri rj by auto
  have c1: "getInterval env (Some a) (Some b) = (j - i) mod 12"
    using ab m by simp
  have c2: "0 \<le> (j - i) mod 12" "(j - i) mod 12 \<le> 11"
    by simp_all
  have c3: "(getInterval env (Some a) (Some b) + getInterval env (Some b) (Some a)) mod 12 = 0"
    using s ab ba by simp
  show ?thesis
    using c1 c2 c3 aa by (simp add: i_def j_def)
qed

theorem getInterval_chromatic_witness:
  "length (notes exampleEnv) = 12 \<and> ''E'' \<in> set (notes exampleEnv) \<and> ''A'' \<in> set (notes exampleEnv)
   \<and> getInterval exampleEnv (Some ''E'') (Some ''A'') = 5
   \<and> getInterval exampleEnv (Some ''A'') (Some ''E'') = 7
   \<and> (indexOf (notes exampleEnv) ''A'' - indexOf (notes exampleEnv) ''E'') mod 12 = 5"
proof -
  have h: "length (notes exampleEnv) = 12" "''E'' \<in> set (notes exampleEnv)" "''A'' \<in> set (notes exampleEnv)"
    by (simp_all add: exampleEnv_def chromatic_def)
  have v: "getInterval exampleEnv (Some ''A'') (Some ''E'') = 7"
    by (simp add: getInterval_def noteIndex_def indexOf_def exampleEnv_def chromatic_def)
  have w: "indexOf (notes exampleEnv) ''A'' = 9" "indexOf (notes exampleEnv) ''E'' = 4"
    by (simp_all add: indexOf_def exampleEnv_def chromatic_def)
  show ?thesis
    using getInterval_chromatic [OF h] h v w by simp
qed

text \<open>
  Claim C7 (as stated, refuted). The claim says that the interval computation fails
  with an \<^verbatim>\<open>InvalidNote\<close> error when an argument is not in the note table.
  \<^verbatim>\<open>getInterval\<close> has no such check: \<^verbatim>\<open>indexOf\<close> yields -1 and an integer is
  returned. Here \<^verbatim>\<open>H\<close> is not a note of the table, the contract worded by the
  specification fails, and the code returns 3.
\<close>

theorem getInterval_invalid_note_counterexample:
  "''H'' \<notin> set (notes exampleEnv)
   \<and> getInterval_spec exampleEnv ''H'' ''D'' = Inl InvalidNoteError
   \<and> getInterval exampleEnv (Some ''H'') (Some ''D'') = 3"
  by (simp add: getInterval_spec_def getInterval_def noteIndex_def indexOf_def
      exampleEnv_def chromatic_def)

text \<open>
  Claim C7 (amended). \<^verbatim>\<open>getInterval\<close> never fails: a note that is not in the
  12-note table has index -1, so an absent first note gives \<open>index(note2) + 1\<close>, an
  absent second note gives \<open>11 - index(note1)\<close>, two absent notes give 0, and every
  result (also for an \<^verbatim>\<open>undefined\<close> argument) is an integer between 0 and 12.
\<close>

theorem getInterval_invalid_note:
  assumes len: "length (notes env) = 12"
  shows "(a \<notin> set (notes env) \<and> b \<in> set (notes env) \<longrightarrow>
            getInterval env (Some a) (Some b) = indexOf (notes env) b + 1)
       \<and> (a \<in> set (notes env) \<and> b \<notin> set (notes env) \<longrightarrow>
            getInterval env (Some a) (Some b) = 11 - indexOf (notes env) a)
       \<and> (a \<notin> set (notes env) \<and> b \<notin> set (notes env) \<longrightarrow>
            getInterval env (Some a) (Some b) = 0)
       \<and> 0 \<le> getInterval env x y \<and> getInterval env x y \<le> 12"
proof -
  have r: "- 1 \<le> noteIndex env n \<and> noteIndex env n < 12" for n
    using indexOf_range [of "notes env"] len by (cases n) (simp_all add: noteIndex_def)
  have bounds: "0 \<le> getInterval env x y \<and> getInterval env x y \<le> 12"
    using r [of x] r [of y] by (simp add: getInterval_def Let_def len)
  have c1: "getInterval env (Some a) (Some b) = indexOf (notes env) b + 1"
    if "a \<notin> set (notes env)" "b \<in> set (notes env)"
    using indexOf_not_mem [OF that(1)] indexOf_mem [OF that(2)]
    by (simp add: getInterval_def noteIndex_def Let_def)
  have c2: "getInterval env (Some a) (Some b) = 11 - indexOf (notes env) a"
    if "a \<in> set (notes env)" "b \<notin> set (notes env)"
    using indexOf_not_mem [OF that(2)] indexOf_mem [OF that(1)]
    by (simp add: getInterval_def noteIndex_def Let_def len)
  have c3: "getInterval env (Some a) (Some b) = 0"
    if "a \<notin> set (notes env)" "b \<notin> set (notes env)"
    using indexOf_not_mem [OF that(2)] indexOf_not_mem [OF that(1)]
    by (simp add: getInterval_def noteIndex_def Let_def len)
  show ?thesis using bounds c1 c2 c3 by blast
qed

theorem getInterval_invalid_note_witness:
  "length (notes exampleEnv) = 12
   \<and> ''H'' \<notin> set (notes exampleEnv) \<and> ''D'' \<in> set (notes exampleEnv)
   \<and> getInterval exampleEnv (Some ''H'') (Some ''D'') = indexOf (notes exampleEnv) ''D'' + 1
   \<and> getInterval exampleEnv (Some ''D'') (Some ''H'') = 11 - indexOf (notes exampleEnv) ''D''
   \<and> indexOf (notes exampleEnv) ''D'' = 2
   \<and> getInterval exampleEnv None (Some ''B'') \<le> 12"
proof -
  have h: "length (notes exampleEnv) = 12"
    by (simp add: exampleEnv_def chromatic_def)
  have m: "''H'' \<notin> set (notes exampleEnv)" "''D'' \<in> set (notes exampleEnv)"
    "indexOf (notes exampleEnv) ''D'' = 2"
    by (simp_all add: exampleEnv_def chromatic_def indexOf_def)
  show ?thesis
    using getInterval_invalid_note [OF h, of "''H''" "''D''" None "Some ''B''"]
      getInterval_invalid_note [OF h, of "''D''" "''H''" None "Some ''B''"] h m
    by simp
qed

subsection \<open>The position window\<close>

text \<open>
  Claim C9. For a sequence whose model has a positions table and whose position is
  neither -1 nor 0, \<^verbatim>\<open>shouldDisplayFret\<close> is true exactly when the fret lies in the
  window \<open>[start, stop] = [low + offset, high + offset]\<close> of the position: the closed
  interval when \<open>start < stop\<close>, and \<open>fret \<ge> start\<close> or \<open>fret \<le> stop\<close> otherwise
  (where the table has no entry for the position, reading the window raises a
  \<^verbatim>\<open>TypeError\<close>). The window [10, 2] with offset 0 contains exactly the frets
  10, 11, 0, 1, 2 among 0..11.
\<close>

theorem shouldDisplayFret_window:
  assumes "models env (model seq) = Some m" and "positions m = Some ps"
    and "position seq \<noteq> - 1" and "position seq \<noteq> 0"
    and "idx < length offs"
  shows "shouldDisplayFret env fret idx seq offs =
           (case jsGet ps (position seq - 1) of
              None \<Rightarrow> Inl UndefinedPosition
            | Some pos \<Rightarrow>
                Inr (let start = fst pos + offs ! idx; stop = snd pos + offs ! idx
                     in if start < stop then start \<le> fret \<and> fret \<le> stop
                        else fret \<ge> start \<or> fret \<le> stop))
       \<and> filter (\<lambda>f. isInPosition f (10, 2) 0) [0 .. 11] = [0, 1, 2, 10, 11]"
proof -
  have ex: "filter (\<lambda>f. isInPosition f (10, 2) 0) [0 .. 11] = [0, 1, 2, 10, 11]"
    by (simp add: isInPosition_def upto_rec1)
  from assms show ?thesis
    unfolding ex
    by (simp add: shouldDisplayFret_def isInPosition_def jsGet_def Let_def
        split: option.splits)
qed

theorem shouldDisplayFret_window_witness:
  "models exampleEnv (model ((majorSeq ''E'' False)\<lparr>position := 2\<rparr>))
     = Some \<lparr>positions = Some [(0, 4), (2, 5), (4, 8), (7, 10), (9, 12)]\<rparr>
   \<and> position ((majorSeq ''E'' False)\<lparr>position := 2\<rparr>) \<noteq> - 1
   \<and> position ((majorSeq ''E'' False)\<lparr>position := 2\<rparr>) \<noteq> 0
   \<and> (0::nat) < length [3::int]
   \<and> shouldDisplayFret exampleEnv 8 0 ((majorSeq ''E'' False)\<lparr>position := 2\<rparr>) [3] = Inr True
   \<and> shouldDisplayFret exampleEnv 9 0 ((majorSeq ''E'' False)\<lparr>position := 2\<rparr>) [3] = Inr False"
proof -
  let ?s = "(majorSeq ''E'' False)\<lparr>position := 2\<rparr>"
  let ?m = "\<lparr>positions = Some [(0, 4), (2, 5), (4, 8), (7, 10), (9, 12)]\<rparr>"
  have a: "models exampleEnv (model ?s) = Some ?m"
    by (simp add: exampleEnv_def majorSeq_def)
  have b: "positions ?m = Some [(0, 4), (2, 5), (4, 8), (7, 10), (9, 12)]"
    by simp
  have c: "position ?s \<noteq> - 1" "position ?s \<noteq> 0"
    by (simp_all add: majorSeq_def)
  have d: "(0::nat) < length [3::int]" by simp
  have p: "position ?s = 2" by (simp add: majorSeq_def)
  show ?thesis
    using shouldDisplayFret_window [OF a b c d, of 8]
      shouldDisplayFret_window [OF a b c d, of 9] a c
    by (simp add: jsGet_def p)
qed

subsection \<open>The capo filter\<close>

text \<open>
  Claim C8. For a capo \<open>K \<ge> 0\<close>, \<^verbatim>\<open>getFrets\<close> with capo \<open>K\<close> is \<^verbatim>\<open>getFrets\<close> with
  capo 0 followed by the capo filter for \<open>K\<close> (and fails exactly when that fails);
  the filter keeps the length of the grid, replaces the \<^verbatim>\<open>sequences\<close> of every fret
  numbered below \<open>K\<close> by the empty list and changes nothing else.
\<close>

theorem getFrets_capo:
  assumes "0 \<le> K"
  shows "getFrets env seqs tuningNotes K flipped
           = map_sum id (\<lambda>g. filterCapo g K) (getFrets env seqs tuningNotes 0 flipped)
       \<and> length (filterCapo g K) = length g
       \<and> (\<forall>i < length g.
            filterCapo g K ! i
              = (if number (g ! i) < K then (g ! i)\<lparr>sequences := []\<rparr> else g ! i))"
  using assms by (auto simp: getFrets_def filterCapo_def split: sum.splits)

theorem getFrets_capo_witness:
  "(0::int) \<le> 2
   \<and> getFrets exampleEnv [majorSeq ''E'' False] [''E''] 2 False
       = map_sum id (\<lambda>g. filterCapo g 2) (getFrets exampleEnv [majorSeq ''E'' False] [''E''] 0 False)
   \<and> filterCapo
        [\<lparr>string = 0, number = 1, note = Some ''F'', sequences = [\<lparr>index = 0, interval = 1\<rparr>],
          isHighlighted = True\<rparr>,
         \<lparr>string = 0, number = 2, note = Some ''F#'', sequences = [\<lparr>index = 0, interval = 2\<rparr>],
          isHighlighted = False\<rparr>] 2
       = [\<lparr>string = 0, number = 1, note = Some ''F'', sequences = [], isHighlighted = True\<rparr>,
          \<lparr>string = 0, number = 2, note = Some ''F#'', sequences = [\<lparr>index = 0, interval = 2\<rparr>],
           isHighlighted = False\<rparr>]
   \<and> map_sum id (\<lambda>g. map (\<lambda>f. map interval (sequences f)) (take 5 g))
         (getFrets exampleEnv [majorSeq ''E'' False] [''E''] 2 False)
       = Inr [[], [], [2], [], [4]]"
proof -
  let ?g = "[\<lparr>string = 0, number = 1, note = Some ''F'', sequences = [\<lparr>index = 0, interval = 1\<rparr>],
          isHighlighted = True\<rparr>,
         \<lparr>string = 0, number = 2, note = Some ''F#'', sequences = [\<lparr>index = 0, interval = 2\<rparr>],
          isHighlighted = False\<rparr>]"
  have k: "(0::int) \<le> 2" by simp
  note t = getFrets_capo [OF k, of exampleEnv "[majorSeq ''E'' False]" "[''E'']" False ?g]
  have e: "map_sum id (\<lambda>g. map (\<lambda>f. map interval (sequences f)) (take 5 g))
         (getFrets exampleEnv [majorSeq ''E'' False] [''E''] 2 False)
       = Inr [[], [], [2], [], [4]]"
    by code_simp
  have f0: "filterCapo ?g 2 ! 0 = (?g ! 0)\<lparr>sequences := []\<rparr>"
    using t [THEN conjunct2, THEN conjunct2, rule_format, of 0] by simp
  have f: "filterCapo ?g 2 = [(?g ! 0)\<lparr>sequences := []\<rparr>, ?g ! 1]"
    using f0 by (simp add: filterCapo_def)
  show ?thesis using t [THEN conjunct1] e f by simp
qed

subsection \<open>Tags and offsets after the sort\<close>

text \<open>
  Claim C1 says that the \<^verbatim>\<open>index\<close> of a tag is the position of the tagging
  sequence in the caller's list. The code takes \<^verbatim>\<open>index\<close> from
  \<^verbatim>\<open>sortedSequences.forEach\<close>, so it is the position in processing order. Input:
  an intersected A major sequence at position 0 of the list and a plain E major
  sequence at position 1, one string tuned to E. The sort processes E major first;
  fret 0 (the note E) is the root of E major and the fifth of A major. The claim
  expects the tags \<open>(1, 0)\<close> and \<open>(0, 7)\<close> there; the code produces \<open>(0, 0)\<close> and
  \<open>(1, 7)\<close>.
\<close>

theorem tag_index_is_processing_order:
  "sortBy compareSeq [majorSeq ''A'' True, majorSeq ''E'' False]
     = [majorSeq ''E'' False, majorSeq ''A'' True]
   \<and> map_sum id (\<lambda>g. map (\<lambda>t. (index t, interval t)) (sequences (g ! 0)))
         (getFrets exampleEnv [majorSeq ''A'' True, majorSeq ''E'' False] [''E''] 0 False)
       = Inr [(0, 0), (1, 7)]"
  by code_simp

text \<open>
  Claim C2 says that the window of a sequence is translated by the offset
  precomputed for that sequence. The code reads \<^verbatim>\<open>positionOffsets[index]\<close> with
  the index of the sorted list, while \<^verbatim>\<open>positionOffsets\<close> is in input order. Same
  input as above with both sequences in position 1 (window \<open>(0, 4)\<close>): the offsets
  are 5 for A major and 0 for E major. E major, processed first, is filtered with
  offset 5: its tags land on frets 5, 7 and 9 (window 5..9) and not on frets 0, 2
  and 4 (its own window 0..4).
\<close>

theorem window_offset_of_other_sequence:
  "positionOffsets exampleEnv
      [(majorSeq ''A'' True)\<lparr>position := 1\<rparr>, (majorSeq ''E'' False)\<lparr>position := 1\<rparr>] [''E''] False
     = [5, 0]
   \<and> getInterval exampleEnv (Some ''E'') (Some ''E'') = 0
   \<and> map_sum id (\<lambda>g. map (\<lambda>f. map (\<lambda>t. (index t, interval t)) (sequences f)) (take 12 g))
         (getFrets exampleEnv
            [(majorSeq ''A'' True)\<lparr>position := 1\<rparr>, (majorSeq ''E'' False)\<lparr>position := 1\<rparr>]
            [''E''] 0 False)
       = Inr [[], [], [], [], [], [(0, 5)], [], [(0, 7)], [], [(0, 9)], [], []]"
  by code_simp

text \<open>
  Claim C3 says that a tag of an intersected sequence is never put on a fret that
  carries no tag of a non-intersected sequence, on the target fret and on its octave
  duplicate alike. The code tests the target fret only. Input: a plain E major
  sequence restricted to frets 0..11 by custom bounds, and an intersected E major
  sequence without window, one string tuned to E. Fret 12 ends up with the single
  tag \<open>(1, 0)\<close> of the intersected sequence.
\<close>

theorem intersected_tag_on_empty_octave_fret:
  "isIntersected (majorSeq ''E'' True)
   \<and> map_sum id (\<lambda>g. map (\<lambda>t. (index t, interval t)) (sequences (g ! 12)))
         (getFrets exampleEnv
            [(majorSeq ''E'' False)\<lparr>position := - 1, customFretBounds := Some (0, 11)\<rparr>,
             majorSeq ''E'' True]
            [''E''] 0 False)
       = Inr [(1, 0)]"
  by code_simp

subsection \<open>Notes of the grid\<close>

lemma forEachE_invariant:
  assumes "forEachE f xs s = Inr s'" and "P s"
    and "\<And>s x s'. x \<in> set xs \<Longrightarrow> P s \<Longrightarrow> f s x = Inr s' \<Longrightarrow> P s'"
  shows "P s'"
  using assms
proof (induction xs arbitrary: s)
  case Nil
  then show ?case by simp
next
  case (Cons x xs)
  from Cons.prems(1) obtain s1 where s1: "f s x = Inr s1" and rest: "forEachE f xs s1 = Inr s'"
    by (auto split: sum.splits)
  have "P s1" using Cons.prems(3) [of x s s1] Cons.prems(2) s1 by simp
  then show ?case using Cons.IH [OF rest] Cons.prems(3) by auto
qed

lemma markFret_cells:
  assumes "markFret env offs seq idx intv frets fret = Inr frets'"
  shows "map cell frets' = map cell frets"
proof (cases "shouldDisplayFret env fret idx seq offs")
  case (Inl e)
  with assms show ?thesis by (simp add: markFret_def)
next
  case (Inr display)
  show ?thesis
  proof (cases display)
    case False
    with Inr assms show ?thesis by (simp add: markFret_def)
  next
    case True
    with Inr assms obtain f where f: "jsGet frets fret = Some f"
      and r: "frets' = frets[nat fret :=
                f\<lparr>sequences := sequences f @ [\<lparr>index = idx, interval = intv\<rparr>],
                  isHighlighted := (if Some intv = highlightedInterval seq then True
                                    else isHighlighted f)\<rparr>]"
      by (auto simp: markFret_def split: option.splits)
    from f have i: "nat fret < length frets" and fi: "f = frets ! nat fret"
      by (auto simp: jsGet_def split: if_splits)
    show ?thesis
      unfolding r map_update
      by (simp add: cell_def fi list_update_same_conv i)
  qed
qed

lemma applyInterval_cells:
  assumes "applyInterval env offs seq idx rootFret frets intv = Inr frets'"
  shows "map cell frets' = map cell frets"
proof -
  let ?both = "forEachE (markFret env offs seq idx intv)
      [rootFret + intv, jsRem (rootFret + intv + 12) (int (NB_FRETS env))] frets"
  from assms have "frets' = frets \<or> ?both = Inr frets'"
    by (auto simp: applyInterval_def Let_def split: if_splits option.splits)
  then show ?thesis
  proof
    assume "frets' = frets"
    then show ?thesis by simp
  next
    assume "?both = Inr frets'"
    then show ?thesis
      by (rule forEachE_invariant [where P = "\<lambda>s. map cell s = map cell frets"])
        (auto dest: markFret_cells)
  qed
qed

lemma markSequence_cells:
  assumes "markSequence env offs frets is = Inr frets'"
  shows "map cell frets' = map cell frets"
  using assms unfolding markSequence_def Let_def
  by (rule forEachE_invariant [where P = "\<lambda>s. map cell s = map cell frets"])
    (auto dest: applyInterval_cells)

lemma markString_cells:
  assumes "markString env offs srt frets = Inr frets'"
  shows "map cell frets' = map cell frets"
  using assms unfolding markString_def
  by (rule forEachE_invariant [where P = "\<lambda>s. map cell s = map cell frets"])
    (auto dest: markSequence_cells)

lemma jsRem_nonneg: "0 \<le> a \<Longrightarrow> 0 < b \<Longrightarrow> jsRem a b = a mod b"
  by (simp add: jsRem_def)

lemma cell_newFrets:
  "map cell (newFrets env t sn) =
     map (\<lambda>i. (sn, int i,
                jsGet (notes env) (jsRem (indexOf (notes env) t + int i) (int (length (notes env))))))
       [0 ..< NB_FRETS env]"
  by (simp add: newFrets_def cell_def comp_def)

lemma flatMapE_mem:
  assumes "flatMapE f xs = Inr ys" and "y \<in> set ys"
  shows "\<exists>x \<in> set xs. \<exists>zs. f x = Inr zs \<and> y \<in> set zs"
  using assms
proof (induction xs arbitrary: ys)
  case Nil
  then show ?case by simp
next
  case (Cons x xs)
  from Cons.prems(1) obtain zs ws where z: "f x = Inr zs" and w: "flatMapE f xs = Inr ws"
    and ys: "ys = zs @ ws"
    by (auto split: sum.splits)
  from Cons.prems(2) ys have "y \<in> set zs \<or> y \<in> set ws" by simp
  then show ?case
  proof
    assume "y \<in> set zs"
    with z show ?thesis by auto
  next
    assume "y \<in> set ws"
    from Cons.IH [OF w this] show ?thesis by auto
  qed
qed

lemma filterCapo_cells: "map cell (filterCapo g K) = map cell g"
  by (simp add: filterCapo_def cell_def comp_def)

lemma note_of_cell:
  assumes len: "length (notes env) = 12" and t: "t \<in> set (notes env)"
    and dvd: "12 dvd NB_FRETS env"
    and marked: "map cell frets = map cell (newFrets env t sn)"
    and f: "f \<in> set (extendFrets env frets)"
  shows "string f = sn \<and> 0 \<le> number f
       \<and> note f = Some (notes env ! nat ((indexOf (notes env) t + number f) mod 12))"
proof -
  define k where "k = indexOf (notes env) t"
  have k0: "0 \<le> k" using indexOf_mem [OF t] by (simp add: k_def)
  have nt: "jsGet (notes env) (jsRem (k + int i) (int (length (notes env))))
              = Some (notes env ! nat ((k + int i) mod 12))" for i
    using k0 by (simp add: jsRem_nonneg len jsGet_def)
  have base: "string g = sn \<and> 0 \<le> number g
       \<and> note g = Some (notes env ! nat ((k + number g) mod 12))" if "g \<in> set frets" for g
  proof -
    from that have "cell g \<in> set (map cell frets)" by simp
    then obtain i where "i < NB_FRETS env"
      and "cell g = (sn, int i, Some (notes env ! nat ((k + int i) mod 12)))"
      unfolding marked cell_newFrets using nt by (auto simp: k_def)
    then show ?thesis by (simp add: cell_def)
  qed
  from f have "f \<in> set frets \<or>
      (\<exists>g \<in> set frets. f = g\<lparr>number := number g + int (NB_FRETS env)\<rparr>)"
    by (auto simp: extendFrets_def jsSlice0_def dest: in_set_takeD split: if_splits)
  then show ?thesis
  proof
    assume "f \<in> set frets"
    from base [OF this] show ?thesis by (simp add: k_def)
  next
    assume "\<exists>g \<in> set frets. f = g\<lparr>number := number g + int (NB_FRETS env)\<rparr>"
    then obtain g where g: "g \<in> set frets" and fg: "f = g\<lparr>number := number g + int (NB_FRETS env)\<rparr>"
      by blast
    from dvd obtain c where c: "NB_FRETS env = 12 * c" by (auto simp: dvd_def)
    have "k + (number g + int (NB_FRETS env)) = (k + number g) + 12 * int c"
      by (simp add: c)
    then have "(k + (number g + int (NB_FRETS env))) mod 12 = (k + number g) mod 12"
      by (simp only: mod_mult_self2)
    with base [OF g] fg show ?thesis by (simp add: k_def)
  qed
qed

text \<open>
  Claim C5. For every call of \<^verbatim>\<open>getFrets\<close> that returns a grid, with any capo, every
  fret of the grid (the frets numbered \<^verbatim>\<open>NB_FRETS\<close> and above included) has the note
  at index \<open>(index of its string's open note + fret number) mod 12\<close> of the note
  table; the capo does not occur in it. The imported parts enter as hypotheses: the
  table has 12 notes, the tuning notes are in it, \<^verbatim>\<open>NB_FRETS\<close> is a multiple of 12
  (the extension copies fret \<open>k\<close> to number \<open>NB_FRETS + k\<close>), and
  \<^verbatim>\<open>shiftSequencesDown\<close> leaves string, number and note of every fret in place.
\<close>

theorem note_from_open_string_and_number:
  assumes len: "length (notes env) = 12"
    and tuning: "set tuningNotes \<subseteq> set (notes env)"
    and dvd: "12 dvd NB_FRETS env"
    and shift: "\<forall>g. map cell (shiftSequencesDown env g) = map cell g"
    and res: "getFrets env seqs tuningNotes capo flipped = Inr grid"
    and f: "f \<in> set grid"
  shows "string f < length tuningNotes \<and> 0 \<le> number f
       \<and> note f = Some (notes env !
            nat ((indexOf (notes env) (tuningNotes ! string f) + number f) mod 12))"
proof -
  from res obtain G where G: "markedGrid env seqs tuningNotes flipped = Inr G"
    and grid: "grid = filterCapo (shiftSequencesDown env G) capo"
    by (auto simp: getFrets_def split: sum.splits)
  have "map cell grid = map cell G"
    using shift by (simp add: grid filterCapo_cells)
  moreover from f have "cell f \<in> set (map cell grid)" by simp
  ultimately obtain f' where f': "f' \<in> set G" and cf: "cell f' = cell f" by auto
  from flatMapE_mem [OF G [unfolded markedGrid_def] f']
  obtain sn t zs where st: "(sn, t) \<in> set (enumerate 0 tuningNotes)"
    and b: "buildString env (positionOffsets env seqs tuningNotes flipped)
              (sortBy compareSeq seqs) (sn, t) = Inr zs"
    and z: "f' \<in> set zs"
    by auto
  from st have sn: "sn < length tuningNotes" and t: "t = tuningNotes ! sn"
    by (auto simp: in_set_enumerate_eq)
  from b obtain frets where m: "markString env (positionOffsets env seqs tuningNotes flipped)
              (sortBy compareSeq seqs) (newFrets env t sn) = Inr frets"
    and zs: "zs = extendFrets env frets"
    by (auto simp: buildString_def split: sum.splits)
  have tn: "t \<in> set (notes env)" using tuning sn t by auto
  have eqs: "string f' = string f" "number f' = number f" "note f' = note f"
    using cf by (simp_all add: cell_def)
  have "string f' = sn \<and> 0 \<le> number f'
       \<and> note f' = Some (notes env ! nat ((indexOf (notes env) t + number f') mod 12))"
    by (rule note_of_cell [OF len tn dvd markString_cells [OF m] z [unfolded zs]])
  then have "string f = sn \<and> 0 \<le> number f
       \<and> note f = Some (notes env ! nat ((indexOf (notes env) t + number f) mod 12))"
    unfolding eqs .
  then show ?thesis using sn t by simp
qed

theorem note_from_open_string_and_number_witness:
  "length (notes exampleEnv) = 12
   \<and> set [''E'', ''A''] \<subseteq> set (notes exampleEnv)
   \<and> 12 dvd NB_FRETS exampleEnv
   \<and> (\<forall>g. map cell (shiftSequencesDown exampleEnv g) = map cell g)
   \<and> \<not> isl (getFrets exampleEnv [majorSeq ''E'' False] [''E'', ''A''] 3 False)
   \<and> string (projr (getFrets exampleEnv [majorSeq ''E'' False] [''E'', ''A''] 3 False) ! 66) = 1
   \<and> number (projr (getFrets exampleEnv [majorSeq ''E'' False] [''E'', ''A''] 3 False) ! 66) = 30
   \<and> note (projr (getFrets exampleEnv [majorSeq ''E'' False] [''E'', ''A''] 3 False) ! 66)
       = Some ''D#''"
proof -
  let ?r = "getFrets exampleEnv [majorSeq ''E'' False] [''E'', ''A''] 3 False"
  have len: "length (notes exampleEnv) = 12"
    by (simp add: exampleEnv_def chromatic_def)
  have tuning: "set [''E'', ''A''] \<subseteq> set (notes exampleEnv)"
    by (simp add: exampleEnv_def chromatic_def)
  have dvd: "12 dvd NB_FRETS exampleEnv"
    by (simp add: exampleEnv_def)
  have shift: "\<forall>g. map cell (shiftSequencesDown exampleEnv g) = map cell g"
    by (simp add: exampleEnv_def)
  have ok: "\<not> isl ?r" by code_simp
  have n: "length (projr ?r) = 72" by code_simp
  have sn: "string (projr ?r ! 66) = 1" "number (projr ?r ! 66) = 30" by code_simp+
  have res: "?r = Inr (projr ?r)" using ok by simp
  have mem: "projr ?r ! 66 \<in> set (projr ?r)" using n by simp
  have ix: "indexOf (notes exampleEnv) ''A'' = 9" "notes exampleEnv ! 3 = ''D#''"
    by (simp_all add: indexOf_def exampleEnv_def chromatic_def)
  show ?thesis
    using note_from_open_string_and_number [OF len tuning dvd shift res mem]
      len tuning dvd shift ok sn ix
    by simp
qed

subsection \<open>Marking the target fret and its octave duplicate\<close>

lemma markFret_length:
  "markFret env offs seq idx intv frets fr = Inr frets' \<Longrightarrow> length frets' = length frets"
  using markFret_cells [of env offs seq idx intv frets fr frets'] by (metis length_map)


lemma markFret_displayed_in_range:
  assumes "markFret env offs seq idx intv frets fr = Inr frets'"
    and "shouldDisplayFret env fr idx seq offs = Inr True"
  shows "0 \<le> fr \<and> fr < int (length frets)"
  using assms by (auto simp: markFret_def jsGet_def split: option.splits if_splits)

lemma markFret_not_UndefinedFret:
  assumes "0 \<le> fr" and "fr < int (length frets)"
  shows "markFret env offs seq idx intv frets fr \<noteq> Inl UndefinedFret"
  using assms
  by (auto simp: markFret_def jsGet_def shouldDisplayFret_def
      split: sum.splits option.splits if_splits)


lemma applyInterval_length:
  "applyInterval env offs seq idx rootFret frets intv = Inr frets' \<Longrightarrow>
     length frets' = length frets"
  using applyInterval_cells [of env offs seq idx rootFret frets intv frets']
  by (metis length_map)



lemma findIndex_map: "findIndex q (map h xs) = findIndex (\<lambda>x. q (h x)) xs"
  by (induction xs) (simp_all add: Let_def)

lemma note_newFrets: "map note (newFrets env t sn) = map note (newFrets env t 0)"
  by (simp add: newFrets_def)

lemma rootFret_of_cells:
  assumes "map cell frets = map cell (newFrets env t sn)"
  shows "findIndex (\<lambda>fret. note fret = Some (tonality seq)) frets = rootFretOn env t seq"
proof -
  have "map note frets = map (\<lambda>c. snd (snd c)) (map cell frets)"
    by (simp add: cell_def comp_def)
  also have "\<dots> = map note (newFrets env t sn)"
    unfolding assms by (simp add: cell_def comp_def)
  finally have n: "map note frets = map note (newFrets env t 0)"
    by (simp add: note_newFrets [of env t sn])
  have "findIndex (\<lambda>fret. note fret = Some (tonality seq)) frets
          = findIndex (\<lambda>n. n = Some (tonality seq)) (map note frets)"
    by (simp add: findIndex_map)
  also have "\<dots> = rootFretOn env t seq"
    unfolding n by (simp add: findIndex_map rootFretOn_def)
  finally show ?thesis .
qed

lemma length_newFrets: "length (newFrets env t sn) = NB_FRETS env"
  by (simp add: newFrets_def)








subsection \<open>Reads of the fret array\<close>

lemma forEachE_error:
  assumes "forEachE f xs s = Inl e" and "P s"
    and "\<And>s x s'. x \<in> set xs \<Longrightarrow> P s \<Longrightarrow> f s x = Inr s' \<Longrightarrow> P s'"
  shows "\<exists>x \<in> set xs. \<exists>s1. P s1 \<and> f s1 x = Inl e"
  using assms
proof (induction xs arbitrary: s)
  case Nil
  then show ?case by simp
next
  case (Cons x xs)
  show ?case
  proof (cases "f s x")
    case (Inl e')
    with Cons.prems(1) have "e' = e" by simp
    with Inl Cons.prems(2) show ?thesis by auto
  next
    case (Inr s1)
    with Cons.prems(1) have rest: "forEachE f xs s1 = Inl e" by simp
    have "P s1" using Cons.prems(3) [of x s s1] Cons.prems(2) Inr by simp
    from Cons.IH [OF rest this] Cons.prems(3) show ?thesis by auto
  qed
qed

lemma flatMapE_error:
  "flatMapE f xs = Inl e \<Longrightarrow> \<exists>x \<in> set xs. f x = Inl e"
  by (induction xs) (auto split: sum.splits)

lemma set_insertBy: "set (insertBy cmp x ys) = insert x (set ys)"
  by (induction ys) auto

lemma set_sortBy: "set (sortBy cmp xs) = set xs"
  by (induction xs) (simp_all add: sortBy_def set_insertBy)

lemma findIndex_le:
  assumes "i < length xs" and "p (xs ! i)"
  shows "0 \<le> findIndex p xs \<and> findIndex p xs \<le> int i"
proof -
  have "\<not> findIndex p xs < 0"
    using assms by (auto simp: findIndex_neg_iff)
  moreover have "\<not> int i < findIndex p xs"
    using findIndex_first [of "int i" p xs] assms(2) by auto
  ultimately show ?thesis by simp
qed

lemma applyInterval_not_UndefinedFret:
  assumes len: "length frets = NB_FRETS env"
    and g0: "0 \<le> rootFret + intv" and g1: "rootFret + intv < int (NB_FRETS env)"
  shows "applyInterval env offs seq idx rootFret frets intv \<noteq> Inl UndefinedFret"
proof -
  define g where "g = rootFret + intv"
  define d where "d = jsRem (g + 12) (int (NB_FRETS env))"
  have gr: "0 \<le> g" "g < int (length frets)" using g0 g1 len by (simp_all add: g_def)
  have dr: "0 \<le> d" "d < int (length frets)"
    using gr len by (simp_all add: d_def jsRem_def)
  have both: "forEachE (markFret env offs seq idx intv) [g, d] frets \<noteq> Inl UndefinedFret"
  proof (cases "markFret env offs seq idx intv frets g")
    case (Inl e)
    with markFret_not_UndefinedFret [OF gr, of env offs seq idx intv] show ?thesis by simp
  next
    case (Inr frets1)
    have "length frets1 = length frets" by (rule markFret_length [OF Inr])
    with dr have "markFret env offs seq idx intv frets1 d \<noteq> Inl UndefinedFret"
      by (intro markFret_not_UndefinedFret) simp_all
    with Inr show ?thesis by (auto split: sum.splits)
  qed
  have "jsGet frets g = Some (frets ! nat g)" using gr by (simp add: jsGet_def)
  then show ?thesis
    using both
    by (simp add: applyInterval_def Let_def g_def [symmetric] d_def [symmetric]
        del: forEachE.simps)
qed

lemma markSequence_not_UndefinedFret:
  assumes len: "length frets = NB_FRETS env"
    and cells: "map cell frets = map cell (newFrets env t sn)"
    and rng: "targetsInRange env t seq"
  shows "markSequence env offs frets (idx, seq) \<noteq> Inl UndefinedFret"
proof
  assume m: "markSequence env offs frets (idx, seq) = Inl UndefinedFret"
  let ?P = "\<lambda>s. length s = NB_FRETS env"
  have root: "findIndex (\<lambda>fret. note fret = Some (tonality seq)) frets = rootFretOn env t seq"
    by (rule rootFret_of_cells [OF cells])
  from m have run: "forEachE (applyInterval env offs seq idx (rootFretOn env t seq))
      (0 # intervalsForSequence env seq) frets = Inl UndefinedFret"
    by (simp only: markSequence_def Let_def fst_conv snd_conv root)
  have "\<exists>x \<in> set (0 # intervalsForSequence env seq). \<exists>s1. ?P s1
      \<and> applyInterval env offs seq idx (rootFretOn env t seq) s1 x = Inl UndefinedFret"
    by (rule forEachE_error [OF run, where P = ?P]) (simp_all add: len applyInterval_length)
  then obtain x s1 where x: "x \<in> set (0 # intervalsForSequence env seq)"
    and s1: "length s1 = NB_FRETS env"
    and bad: "applyInterval env offs seq idx (rootFretOn env t seq) s1 x = Inl UndefinedFret"
    by blast
  from rng x have "0 \<le> rootFretOn env t seq + x" "rootFretOn env t seq + x < int (NB_FRETS env)"
    unfolding targetsInRange_def by auto
  from applyInterval_not_UndefinedFret [OF s1 this] bad show False by simp
qed

lemma markString_not_UndefinedFret:
  assumes rng: "\<forall>seq \<in> set srt. targetsInRange env t seq"
  shows "markString env offs srt (newFrets env t sn) \<noteq> Inl UndefinedFret"
proof
  assume m: "markString env offs srt (newFrets env t sn) = Inl UndefinedFret"
  let ?P = "\<lambda>s. map cell s = map cell (newFrets env t sn)"
  have "\<exists>x \<in> set (enumerate 0 srt). \<exists>s1. ?P s1
      \<and> markSequence env offs s1 x = Inl UndefinedFret"
    by (rule forEachE_error [OF m [unfolded markString_def], where P = ?P])
      (simp_all add: markSequence_cells)
  then obtain idx seq s1 where x: "(idx, seq) \<in> set (enumerate 0 srt)"
    and s1: "map cell s1 = map cell (newFrets env t sn)"
    and bad: "markSequence env offs s1 (idx, seq) = Inl UndefinedFret"
    by auto
  from x have "seq \<in> set srt" by (auto simp: in_set_enumerate_eq)
  with rng have r: "targetsInRange env t seq" by blast
  have "length s1 = NB_FRETS env"
    using s1 length_newFrets [of env t sn] by (metis length_map)
  from markSequence_not_UndefinedFret [OF this s1 r] bad show False by simp
qed

lemma getFrets_not_UndefinedFret:
  assumes rng: "\<forall>seq \<in> set seqs. \<forall>t \<in> set tuningNotes. targetsInRange env t seq"
  shows "getFrets env seqs tuningNotes capo flipped \<noteq> Inl UndefinedFret"
proof
  assume "getFrets env seqs tuningNotes capo flipped = Inl UndefinedFret"
  then have "markedGrid env seqs tuningNotes flipped = Inl UndefinedFret"
    by (simp add: getFrets_def split: sum.splits)
  from flatMapE_error [OF this [unfolded markedGrid_def]]
  obtain sn t where st: "(sn, t) \<in> set (enumerate 0 tuningNotes)"
    and b: "buildString env (positionOffsets env seqs tuningNotes flipped)
              (sortBy compareSeq seqs) (sn, t) = Inl UndefinedFret"
    by auto
  from st have t: "t \<in> set tuningNotes" by (auto simp: in_set_enumerate_eq)
  from b have "markString env (positionOffsets env seqs tuningNotes flipped)
              (sortBy compareSeq seqs) (newFrets env t sn) = Inl UndefinedFret"
    by (simp add: buildString_def split: sum.splits)
  moreover have "\<forall>seq \<in> set (sortBy compareSeq seqs). targetsInRange env t seq"
    using rng t by (simp add: set_sortBy)
  ultimately show False using markString_not_UndefinedFret by blast
qed

lemma note_newFrets_nth:
  assumes "i < NB_FRETS env"
  shows "note (newFrets env t sn ! i)
           = jsGet (notes env) (jsRem (indexOf (notes env) t + int i) (int (length (notes env))))"
  using assms by (simp add: newFrets_def)

lemma rootFretOn_found:
  assumes len: "length (notes env) = 12" and nb: "12 \<le> NB_FRETS env"
    and t: "t \<in> set (notes env)" and ton: "tonality seq \<in> set (notes env)"
  shows "0 \<le> rootFretOn env t seq \<and> rootFretOn env t seq \<le> 11"
proof -
  define k where "k = indexOf (notes env) t"
  define j where "j = indexOf (notes env) (tonality seq)"
  define i where "i = nat ((j - k) mod 12)"
  have k: "0 \<le> k" using indexOf_mem [OF t] by (simp add: k_def)
  have j: "0 \<le> j" "j < 12"
    using indexOf_mem [OF ton] indexOf_range [of "notes env" "tonality seq"] len
    by (simp_all add: j_def)
  have i: "i < 12" "int i = (j - k) mod 12" by (simp_all add: i_def)
  have "(k + int i) mod 12 = j mod 12"
    unfolding i(2) by (simp add: mod_add_right_eq)
  then have m: "(k + int i) mod 12 = j" using j by simp
  have "note (newFrets env t 0 ! i) = Some (notes env ! nat j)"
    using i(1) nb k j m
    by (simp add: note_newFrets_nth k_def [symmetric] len jsRem_nonneg jsGet_def)
  also have "notes env ! nat j = tonality seq"
    using indexOf_nth [OF ton] by (simp add: j_def)
  finally have p: "note (newFrets env t 0 ! i) = Some (tonality seq)" .
  have "i < length (newFrets env t 0)" using i(1) nb by (simp add: length_newFrets)
  from findIndex_le [OF this, of "\<lambda>fret. note fret = Some (tonality seq)", OF p] i(1)
  show ?thesis by (simp add: rootFretOn_def)
qed

lemma jsGet_mem: "jsGet xs i = Some y \<Longrightarrow> y \<in> set xs"
  by (auto simp: jsGet_def split: if_splits)

lemma rootFretOn_absent:
  assumes "tonality seq \<notin> set (notes env)"
  shows "rootFretOn env t seq = - 1"
proof -
  have "\<forall>fret \<in> set (newFrets env t 0). note fret \<noteq> Some (tonality seq)"
    using assms by (auto simp: newFrets_def dest: jsGet_mem)
  then have "findIndex (\<lambda>fret. note fret = Some (tonality seq)) (newFrets env t 0) < 0"
    by (simp add: findIndex_neg_iff)
  then show ?thesis
    using findIndex_ge [of "\<lambda>fret. note fret = Some (tonality seq)" "newFrets env t 0"]
    by (simp add: rootFretOn_def)
qed

lemma applyInterval_absent_root:
  "(isIntersected sq \<or> shouldDisplayFret env (- 1) idx sq offs = Inr True \<longrightarrow>
      applyInterval env offs sq idx (- 1) frets 0 = Inl UndefinedFret)
   \<and> (\<not> isIntersected sq \<and> shouldDisplayFret env (- 1) idx sq offs = Inr False \<longrightarrow>
      applyInterval env offs sq idx (- 1) frets 0
        = markFret env offs sq idx 0 frets (jsRem 11 (int (NB_FRETS env))))"
  by (auto simp: applyInterval_def markFret_def jsGet_def Let_def split: sum.splits)

text \<open>
  Claim C10 (as stated, refuted). The claim ends: if a tonality is absent from the
  note table, \<^verbatim>\<open>rootFret\<close> is -1 and \<^verbatim>\<open>applyInterval(0)\<close> dereferences
  \<^verbatim>\<open>frets[-1]\<close>. For a plain sequence with custom bounds 0..11 the window filter
  rejects fret -1 before \<^verbatim>\<open>frets[-1]\<close> is read: with the tonality \<^verbatim>\<open>H\<close>, which is
  not in the table, \<^verbatim>\<open>rootFret\<close> is -1, \<^verbatim>\<open>applyInterval(0)\<close> returns, and
  \<^verbatim>\<open>getFrets\<close> returns a grid (root tag on fret 11, the others counted from fret -1).
\<close>

theorem absent_tonality_without_dereference_counterexample:
  "tonality ((majorSeq ''H'' False)\<lparr>position := - 1, customFretBounds := Some (0, 11)\<rparr>)
     \<notin> set (notes exampleEnv)
   \<and> rootFretOn exampleEnv ''E''
       ((majorSeq ''H'' False)\<lparr>position := - 1, customFretBounds := Some (0, 11)\<rparr>) = - 1
   \<and> map_sum id (\<lambda>g. map (\<lambda>f. map interval (sequences f)) (take 12 g))
        (getFrets exampleEnv
           [(majorSeq ''H'' False)\<lparr>position := - 1, customFretBounds := Some (0, 11)\<rparr>]
           [''E''] 0 False)
       = Inr [[], [2], [], [4], [5], [], [7], [], [9], [], [11], [0]]
   \<and> \<not> isl (applyInterval exampleEnv [0]
               ((majorSeq ''H'' False)\<lparr>position := - 1, customFretBounds := Some (0, 11)\<rparr>)
               0 (- 1) (newFrets exampleEnv ''E'' 0) 0)"
  by code_simp

text \<open>
  Claim C10 (amended). The marking pass reads \<^verbatim>\<open>frets[rootFret + interval]\<close> and
  \<^verbatim>\<open>frets[(rootFret + interval + 12) % NB_FRETS]\<close> without bounds checks. If the note
  table has 12 notes, \<^verbatim>\<open>NB_FRETS\<close> is at least 12, the tuning notes and every
  tonality are in the table, and every generated interval \<open>i\<close> satisfies
  \<open>0 \<le> rootFret + i \<le> NB_FRETS - 1\<close> on every string, then every root fret is
  between 0 and 11 and no read of the fret array in \<^verbatim>\<open>getFrets\<close> is out of bounds.
  If a tonality is absent from the table, \<^verbatim>\<open>rootFret\<close> is -1; \<^verbatim>\<open>applyInterval(0)\<close>
  then reads the undefined \<^verbatim>\<open>frets[-1]\<close> when the sequence is intersected or the
  window filter displays fret -1, and skips fret -1 when the sequence is not
  intersected and the filter rejects it.
\<close>

theorem fret_accesses_in_bounds:
  "(length (notes env) = 12 \<and> 12 \<le> NB_FRETS env \<and> set tuningNotes \<subseteq> set (notes env)
      \<and> (\<forall>s \<in> set seqs. tonality s \<in> set (notes env))
      \<and> (\<forall>s \<in> set seqs. \<forall>t \<in> set tuningNotes. \<forall>i \<in> set (intervalsForSequence env s).
            0 \<le> rootFretOn env t s + i \<and> rootFretOn env t s + i \<le> int (NB_FRETS env) - 1)
    \<longrightarrow> (\<forall>s \<in> set seqs. \<forall>t \<in> set tuningNotes.
            0 \<le> rootFretOn env t s \<and> rootFretOn env t s \<le> 11)
        \<and> getFrets env seqs tuningNotes capo flipped \<noteq> Inl UndefinedFret)
   \<and> (tonality sq \<notin> set (notes env)
    \<longrightarrow> rootFretOn env t sq = - 1
        \<and> (isIntersected sq \<or> shouldDisplayFret env (- 1) idx sq offs = Inr True \<longrightarrow>
             applyInterval env offs sq idx (- 1) frets 0 = Inl UndefinedFret)
        \<and> (\<not> isIntersected sq \<and> shouldDisplayFret env (- 1) idx sq offs = Inr False \<longrightarrow>
             applyInterval env offs sq idx (- 1) frets 0
               = markFret env offs sq idx 0 frets (jsRem 11 (int (NB_FRETS env)))))"
proof (intro conjI impI)
  assume h: "length (notes env) = 12 \<and> 12 \<le> NB_FRETS env \<and> set tuningNotes \<subseteq> set (notes env)
      \<and> (\<forall>s \<in> set seqs. tonality s \<in> set (notes env))
      \<and> (\<forall>s \<in> set seqs. \<forall>t \<in> set tuningNotes. \<forall>i \<in> set (intervalsForSequence env s).
            0 \<le> rootFretOn env t s + i \<and> rootFretOn env t s + i \<le> int (NB_FRETS env) - 1)"
  then have len: "length (notes env) = 12" and nb: "12 \<le> NB_FRETS env"
    and tuning: "set tuningNotes \<subseteq> set (notes env)"
    and ton: "\<forall>s \<in> set seqs. tonality s \<in> set (notes env)"
    and rng: "\<forall>s \<in> set seqs. \<forall>t \<in> set tuningNotes. \<forall>i \<in> set (intervalsForSequence env s).
            0 \<le> rootFretOn env t s + i \<and> rootFretOn env t s + i \<le> int (NB_FRETS env) - 1"
    by simp_all
  have root: "0 \<le> rootFretOn env t s \<and> rootFretOn env t s \<le> 11"
    if "s \<in> set seqs" "t \<in> set tuningNotes" for s t
    using rootFretOn_found [OF len nb] that tuning ton by blast
  then show "\<forall>s \<in> set seqs. \<forall>t \<in> set tuningNotes.
            0 \<le> rootFretOn env t s \<and> rootFretOn env t s \<le> 11"
    by blast
  have "targetsInRange env t s" if "s \<in> set seqs" "t \<in> set tuningNotes" for s t
  proof -
    have "0 \<le> rootFretOn env t s + 0 \<and> rootFretOn env t s + 0 < int (NB_FRETS env)"
      using root [OF that] nb by simp
    moreover have "\<forall>i \<in> set (intervalsForSequence env s).
        0 \<le> rootFretOn env t s + i \<and> rootFretOn env t s + i < int (NB_FRETS env)"
      using rng that by fastforce
    ultimately show ?thesis unfolding targetsInRange_def by simp
  qed
  then show "getFrets env seqs tuningNotes capo flipped \<noteq> Inl UndefinedFret"
    by (intro getFrets_not_UndefinedFret) blast
next
  assume "tonality sq \<notin> set (notes env)"
  then show "rootFretOn env t sq = - 1" by (rule rootFretOn_absent)
next
  assume "isIntersected sq \<or> shouldDisplayFret env (- 1) idx sq offs = Inr True"
  then show "applyInterval env offs sq idx (- 1) frets 0 = Inl UndefinedFret"
    using applyInterval_absent_root [of sq env idx offs frets] by blast
next
  assume "\<not> isIntersected sq \<and> shouldDisplayFret env (- 1) idx sq offs = Inr False"
  then show "applyInterval env offs sq idx (- 1) frets 0
               = markFret env offs sq idx 0 frets (jsRem 11 (int (NB_FRETS env)))"
    using applyInterval_absent_root [of sq env idx offs frets] by blast
qed

theorem fret_accesses_in_bounds_witness:
  "length (notes exampleEnv) = 12 \<and> 12 \<le> NB_FRETS exampleEnv
   \<and> set [''E'', ''A''] \<subseteq> set (notes exampleEnv)
   \<and> tonality (majorSeq ''E'' False) \<in> set (notes exampleEnv)
   \<and> targetsInRange exampleEnv ''E'' (majorSeq ''E'' False)
   \<and> targetsInRange exampleEnv ''A'' (majorSeq ''E'' False)
   \<and> rootFretOn exampleEnv ''A'' (majorSeq ''E'' False) = 7
   \<and> getFrets exampleEnv [majorSeq ''E'' False] [''E'', ''A''] 0 False \<noteq> Inl UndefinedFret
   \<and> tonality (majorSeq ''H'' False) \<notin> set (notes exampleEnv)
   \<and> rootFretOn exampleEnv ''E'' (majorSeq ''H'' False) = - 1
   \<and> shouldDisplayFret exampleEnv (- 1) 0 (majorSeq ''H'' False) [0] = Inr True
   \<and> applyInterval exampleEnv [0] (majorSeq ''H'' False) 0 (- 1) (newFrets exampleEnv ''E'' 0) 0
       = Inl UndefinedFret"
proof -
  let ?s = "majorSeq ''E'' False"
  let ?h = "majorSeq ''H'' False"
  have len: "length (notes exampleEnv) = 12" "12 \<le> NB_FRETS exampleEnv"
    "set [''E'', ''A''] \<subseteq> set (notes exampleEnv)"
    by (simp_all add: exampleEnv_def chromatic_def)
  have ton: "tonality ?s \<in> set (notes exampleEnv)" "tonality ?h \<notin> set (notes exampleEnv)"
    by (simp_all add: exampleEnv_def chromatic_def majorSeq_def)
  have rE: "targetsInRange exampleEnv ''E'' ?s" by code_simp
  have rA: "targetsInRange exampleEnv ''A'' ?s" by code_simp
  have r7: "rootFretOn exampleEnv ''A'' ?s = 7" by code_simp
  have disp: "shouldDisplayFret exampleEnv (- 1) 0 ?h [0] = Inr True"
    by (simp add: shouldDisplayFret_def majorSeq_def)
  have rng: "\<forall>s \<in> set [?s]. \<forall>t \<in> set [''E'', ''A''].
      \<forall>i \<in> set (intervalsForSequence exampleEnv s).
        0 \<le> rootFretOn exampleEnv t s + i
        \<and> rootFretOn exampleEnv t s + i \<le> int (NB_FRETS exampleEnv) - 1"
    using rE rA unfolding targetsInRange_def by auto
  note t = fret_accesses_in_bounds [of exampleEnv "[''E'', ''A'']" "[?s]" 0 False ?h "''E''" 0
      "[0]" "newFrets exampleEnv ''E'' 0"]
  have a: "getFrets exampleEnv [?s] [''E'', ''A''] 0 False \<noteq> Inl UndefinedFret"
    using t [THEN conjunct1] len ton(1) rng by simp
  have b: "rootFretOn exampleEnv ''E'' ?h = - 1"
    "applyInterval exampleEnv [0] ?h 0 (- 1) (newFrets exampleEnv ''E'' 0) 0 = Inl UndefinedFret"
    using t [THEN conjunct2] ton(2) disp by simp_all
  show ?thesis using a b len ton rE rA r7 disp by simp
qed

subsection \<open>The processing order\<close>

text \<open>
  The comparison function orders by \<^verbatim>\<open>isIntersected\<close> only, so the stable sort puts
  the non-intersected sequences first and keeps the input order inside each group.
\<close>

lemma insertBy_plain:
  "\<not> isIntersected x \<Longrightarrow> insertBy compareSeq x ys = x # ys"
  by (cases ys) (simp_all add: compareSeq_def)

lemma insertBy_intersected:
  assumes "isIntersected x" and "\<forall>y \<in> set ps. \<not> isIntersected y"
    and "\<forall>y \<in> set qs. isIntersected y"
  shows "insertBy compareSeq x (ps @ qs) = ps @ x # qs"
  using assms(2)
proof (induction ps)
  case Nil
  show ?case using assms(1,3) by (cases qs) (simp_all add: compareSeq_def)
next
  case (Cons p ps)
  then show ?case using assms(1) by (simp add: compareSeq_def)
qed

lemma sortBy_compareSeq:
  "sortBy compareSeq seqs
     = filter (\<lambda>s. \<not> isIntersected s) seqs @ filter isIntersected seqs"
proof (induction seqs)
  case Nil
  show ?case by (simp add: sortBy_def)
next
  case (Cons x xs)
  have step: "sortBy compareSeq (x # xs) = insertBy compareSeq x (sortBy compareSeq xs)"
    by (simp add: sortBy_def)
  show ?case
  proof (cases "isIntersected x")
    case True
    then show ?thesis
      unfolding step Cons.IH by (simp add: insertBy_intersected)
  next
    case False
    then show ?thesis
      unfolding step Cons.IH by (simp add: insertBy_plain)
  qed
qed

end
